theory Spec2Isabelle
  imports Main "HOL-Library.Word" "HOL-Library.Code_Target_Nat"
begin

unbundle bit_operations_syntax

section \<open>Package encrypt: AES-256-GCM helpers\<close>

text \<open>
  The package has three functions, \<^verbatim>\<open>Encrypt\<close>, \<^verbatim>\<open>Decrypt\<close> and \<^verbatim>\<open>GenerateKey\<close>
  (the specification calls them Seal, Open and GenerateKey).  Each is a short sequence of
  calls into the Go standard library (\<^verbatim>\<open>encoding/base64\<close>, \<^verbatim>\<open>crypto/aes\<close>,
  \<^verbatim>\<open>crypto/cipher\<close>, \<^verbatim>\<open>crypto/rand\<close>, \<^verbatim>\<open>io\<close>) with an early return after every call
  that can fail.  The library functions are embedded first, by their documented behaviour
  (RFC 4648 for base64, FIPS 197 for AES, NIST SP 800-38D for GCM), then the three functions
  of the package, statement by statement.

  A Go \<^verbatim>\<open>[]byte\<close> is a list of 8-bit words; a Go \<^verbatim>\<open>string\<close> is a sequence of bytes and
  so an Isabelle \<open>string\<close>.
\<close>

type_synonym byte = "8 word"
type_synonym bytes = "byte list"

subsection \<open>Errors\<close>

text \<open>
  Errors of the library: \<^verbatim>\<open>aes.KeySizeError\<close>, the error of \<^verbatim>\<open>cipher.NewGCM\<close> for a
  block size other than 16, \<^verbatim>\<open>base64.CorruptInputError\<close> (the byte offset it carries is
  not modelled), the error of \<^verbatim>\<open>AEAD.Open\<close> (``cipher: message authentication failed''),
  and the errors of reading from an \<^verbatim>\<open>io.Reader\<close>.
\<close>

datatype lib_error =
    KeySizeError nat
  | ErrGCMBlockSize
  | CorruptInputError
  | ErrOpen
  | EOF
  | ErrUnexpectedEOF
  | ErrRead

text \<open>The panics of \<^verbatim>\<open>crypto/cipher\<close>'s GCM: the call does not return.\<close>

datatype panic = IncorrectNonceLength | MessageTooLarge | IncorrectTagSize

datatype 'a outcome = Ok 'a | Err lib_error | Panics panic

text \<open>
  One constructor for every \<^verbatim>\<open>return ..., err\<close> of the package, in the order of the source:
  \<^item> \<open>KeyLength\<close>: ``key must be 32 bytes for AES-256'' (the specification's
    InvalidKeyLength);
  \<^item> \<open>AESCipherCreationFailed\<close>, \<open>GCMModeCreationFailed\<close>: the wrapped library error;
  \<^item> \<open>NonceGenerationFailed\<close>, \<open>KeyGenerationFailed\<close>: the random source failed
    (RandomnessUnavailable);
  \<^item> \<open>Base64DecodeFailed\<close> and \<open>CiphertextTooShort\<close> (both MalformedEnvelope);
  \<^item> \<open>DecryptionFailed\<close>: the AEAD rejected the message (AuthenticationFailed).

  \<open>Panic\<close> is not a returned error: the library panicked under the call.
\<close>

datatype error =
    KeyLength
  | AESCipherCreationFailed lib_error
  | GCMModeCreationFailed lib_error
  | NonceGenerationFailed lib_error
  | Base64DecodeFailed lib_error
  | CiphertextTooShort
  | DecryptionFailed lib_error
  | KeyGenerationFailed lib_error
  | Panic panic

subsection \<open>encoding/base64: StdEncoding\<close>

text \<open>
  \<^verbatim>\<open>StdEncoding = NewEncoding(encodeStd)\<close>: the standard alphabet, padding character
  \<^verbatim>\<open>'='\<close>, not strict.  \<open>decodeMap\<close> is 0xFF for every byte outside the alphabet.
\<close>

definition encodeStd :: string where
  "encodeStd = ''ABCDEFGHIJKLMNOPQRSTUVWXYZabcdefghijklmnopqrstuvwxyz0123456789+/''"

definition encode :: "64 word \<Rightarrow> char" where
  "encode i = encodeStd ! unat i"

definition decodeMap :: "char \<Rightarrow> byte" where
  "decodeMap c =
     (if c \<in> set encodeStd then of_nat (length (takeWhile (\<lambda>x. x \<noteq> c) encodeStd)) else 0xFF)"

text \<open>
  \<^verbatim>\<open>Encode\<close>: three bytes make \<^verbatim>\<open>val\<close> (a \<^verbatim>\<open>uint\<close>) and four characters; one or two
  remaining bytes make two or three characters and the padding.
\<close>

fun Encode :: "bytes \<Rightarrow> string" where
  "Encode (a # b # c # rest) =
     (let val = push_bit 16 (ucast a) OR push_bit 8 (ucast b) OR ucast c :: 64 word
      in [encode (drop_bit 18 val AND 0x3F), encode (drop_bit 12 val AND 0x3F),
          encode (drop_bit 6 val AND 0x3F), encode (val AND 0x3F)] @ Encode rest)"
| "Encode [a, b] =
     (let val = push_bit 16 (ucast a) OR push_bit 8 (ucast b) :: 64 word
      in [encode (drop_bit 18 val AND 0x3F), encode (drop_bit 12 val AND 0x3F),
          encode (drop_bit 6 val AND 0x3F), CHR ''=''])"
| "Encode [a] =
     (let val = push_bit 16 (ucast a) :: 64 word
      in [encode (drop_bit 18 val AND 0x3F), encode (drop_bit 12 val AND 0x3F),
          CHR ''='', CHR ''=''])"
| "Encode [] = []"

definition EncodeToString :: "bytes \<Rightarrow> string" where
  "EncodeToString src = Encode src"

text \<open>The decoder skips carriage returns and line feeds wherever they stand.\<close>

definition is_newline :: "char \<Rightarrow> bool" where
  "is_newline c = (c = CHR 0x0A \<or> c = CHR 0x0D)"

text \<open>
  The end of \<^verbatim>\<open>decodeQuantum\<close>: \<^verbatim>\<open>dlen\<close> six-bit values (the rest of \<^verbatim>\<open>dbuf\<close> is zero)
  make \<^verbatim>\<open>val\<close> and \<^verbatim>\<open>dlen - 1\<close> bytes.  The encoding is not strict: bits left over in the
  last value are dropped.
\<close>

definition convertQuantum :: "byte list \<Rightarrow> bytes" where
  "convertQuantum dbuf =
     (let d = dbuf @ replicate (4 - length dbuf) 0;
          val = push_bit 18 (ucast (d ! 0)) OR push_bit 12 (ucast (d ! 1))
                OR push_bit 6 (ucast (d ! 2)) OR ucast (d ! 3) :: 64 word
      in take (length dbuf - 1) [ucast (drop_bit 16 val), ucast (drop_bit 8 val), ucast val])"

text \<open>
  \<^verbatim>\<open>decodeQuantum\<close> reads up to four characters of the alphabet; \<open>dbuf\<close> holds the values
  read so far (\<^verbatim>\<open>j = len(dbuf)\<close>).  It returns the bytes decoded and the input left, or
  fails:
  \<^item> the input ends inside a quantum;
  \<^item> a character is neither of the alphabet, nor a newline, nor the padding;
  \<^item> padding stands at the first or second place of a quantum;
  \<^item> at the third place, padding is not followed (newlines apart) by a second one;
  \<^item> anything but newlines follows the padding.
\<close>

fun decodeQuantum :: "byte list \<Rightarrow> string \<Rightarrow> lib_error + (bytes \<times> string)" where
  "decodeQuantum dbuf [] = (if dbuf = [] then Inr ([], []) else Inl CorruptInputError)"
| "decodeQuantum dbuf (c # src) =
     (if decodeMap c \<noteq> 0xFF then
        (if length dbuf = 3 then Inr (convertQuantum (dbuf @ [decodeMap c]), src)
         else decodeQuantum (dbuf @ [decodeMap c]) src)
      else if is_newline c then decodeQuantum dbuf src
      else if c \<noteq> CHR ''='' then Inl CorruptInputError
      else if length dbuf < 2 then Inl CorruptInputError
      else if length dbuf = 2 then
        (case dropWhile is_newline src of
           [] \<Rightarrow> Inl CorruptInputError
         | p # src' \<Rightarrow>
             if p \<noteq> CHR ''='' then Inl CorruptInputError
             else if dropWhile is_newline src' \<noteq> [] then Inl CorruptInputError
             else Inr (convertQuantum dbuf, []))
      else if dropWhile is_newline src \<noteq> [] then Inl CorruptInputError
      else Inr (convertQuantum dbuf, []))"

lemma decodeQuantum_rest:
  "decodeQuantum dbuf src = Inr (out, rest) \<Longrightarrow> src \<noteq> [] \<Longrightarrow> length rest < length src"
proof (induction dbuf src rule: decodeQuantum.induct)
  case (1 dbuf)
  then show ?case by simp
next
  case (2 dbuf c src)
  show ?case
  proof (cases "src = []")
    case True
    with "2.prems" show ?thesis
      by (auto split: if_splits list.splits)
  next
    case False
    with "2.prems" "2.IH" show ?thesis
      by (fastforce split: if_splits list.splits)
  qed
qed

text \<open>
  \<^verbatim>\<open>Decode\<close>: quantum after quantum until the input is used up.  (The library decodes
  eight and four characters at a time where all are of the alphabet, and falls back to
  \<^verbatim>\<open>decodeQuantum\<close> otherwise, with the same result.)
\<close>

function Decode :: "string \<Rightarrow> lib_error + bytes" where
  "Decode src =
     (if src = [] then Inr []
      else case decodeQuantum [] src of
             Inl e \<Rightarrow> Inl e
           | Inr (out, rest) \<Rightarrow>
               (case Decode rest of Inl e \<Rightarrow> Inl e | Inr out' \<Rightarrow> Inr (out @ out')))"
  by pat_completeness auto
termination Decode
  by (relation "measure length") (auto dest: decodeQuantum_rest)

declare Decode.simps [simp del]

definition DecodeString :: "string \<Rightarrow> lib_error + bytes" where
  "DecodeString s = Decode s"

subsection \<open>crypto/aes: the block cipher\<close>

text \<open>
  The AES block function of FIPS 197 on a state of 16 bytes, column after column.
  \<open>sbox0\<close> is the table of the library (\<^verbatim>\<open>crypto/aes/const.go\<close>).
\<close>

definition sbox0 :: "bytes" where
  "sbox0 =
     [0x63, 0x7C, 0x77, 0x7B, 0xF2, 0x6B, 0x6F, 0xC5, 0x30, 0x01, 0x67, 0x2B, 0xFE, 0xD7, 0xAB, 0x76,
      0xCA, 0x82, 0xC9, 0x7D, 0xFA, 0x59, 0x47, 0xF0, 0xAD, 0xD4, 0xA2, 0xAF, 0x9C, 0xA4, 0x72, 0xC0,
      0xB7, 0xFD, 0x93, 0x26, 0x36, 0x3F, 0xF7, 0xCC, 0x34, 0xA5, 0xE5, 0xF1, 0x71, 0xD8, 0x31, 0x15,
      0x04, 0xC7, 0x23, 0xC3, 0x18, 0x96, 0x05, 0x9A, 0x07, 0x12, 0x80, 0xE2, 0xEB, 0x27, 0xB2, 0x75,
      0x09, 0x83, 0x2C, 0x1A, 0x1B, 0x6E, 0x5A, 0xA0, 0x52, 0x3B, 0xD6, 0xB3, 0x29, 0xE3, 0x2F, 0x84,
      0x53, 0xD1, 0x00, 0xED, 0x20, 0xFC, 0xB1, 0x5B, 0x6A, 0xCB, 0xBE, 0x39, 0x4A, 0x4C, 0x58, 0xCF,
      0xD0, 0xEF, 0xAA, 0xFB, 0x43, 0x4D, 0x33, 0x85, 0x45, 0xF9, 0x02, 0x7F, 0x50, 0x3C, 0x9F, 0xA8,
      0x51, 0xA3, 0x40, 0x8F, 0x92, 0x9D, 0x38, 0xF5, 0xBC, 0xB6, 0xDA, 0x21, 0x10, 0xFF, 0xF3, 0xD2,
      0xCD, 0x0C, 0x13, 0xEC, 0x5F, 0x97, 0x44, 0x17, 0xC4, 0xA7, 0x7E, 0x3D, 0x64, 0x5D, 0x19, 0x73,
      0x60, 0x81, 0x4F, 0xDC, 0x22, 0x2A, 0x90, 0x88, 0x46, 0xEE, 0xB8, 0x14, 0xDE, 0x5E, 0x0B, 0xDB,
      0xE0, 0x32, 0x3A, 0x0A, 0x49, 0x06, 0x24, 0x5C, 0xC2, 0xD3, 0xAC, 0x62, 0x91, 0x95, 0xE4, 0x79,
      0xE7, 0xC8, 0x37, 0x6D, 0x8D, 0xD5, 0x4E, 0xA9, 0x6C, 0x56, 0xF4, 0xEA, 0x65, 0x7A, 0xAE, 0x08,
      0xBA, 0x78, 0x25, 0x2E, 0x1C, 0xA6, 0xB4, 0xC6, 0xE8, 0xDD, 0x74, 0x1F, 0x4B, 0xBD, 0x8B, 0x8A,
      0x70, 0x3E, 0xB5, 0x66, 0x48, 0x03, 0xF6, 0x0E, 0x61, 0x35, 0x57, 0xB9, 0x86, 0xC1, 0x1D, 0x9E,
      0xE1, 0xF8, 0x98, 0x11, 0x69, 0xD9, 0x8E, 0x94, 0x9B, 0x1E, 0x87, 0xE9, 0xCE, 0x55, 0x28, 0xDF,
      0x8C, 0xA1, 0x89, 0x0D, 0xBF, 0xE6, 0x42, 0x68, 0x41, 0x99, 0x2D, 0x0F, 0xB0, 0x54, 0xBB, 0x16]"

definition subByte :: "byte \<Rightarrow> byte" where
  "subByte b = sbox0 ! unat b"

text \<open>Multiplication by \<open>x\<close> in GF(2^8), modulo \<open>x^8 + x^4 + x^3 + x + 1\<close>.\<close>

definition xtime :: "byte \<Rightarrow> byte" where
  "xtime b = (if bit b 7 then push_bit 1 b XOR 0x1B else push_bit 1 b)"

text \<open>\<^verbatim>\<open>subtle.XORBytes\<close>: as many bytes as the shorter argument has.\<close>

definition xorBytes :: "bytes \<Rightarrow> bytes \<Rightarrow> bytes" where
  "xorBytes x y = map2 (XOR) x y"

definition subBytes :: "bytes \<Rightarrow> bytes" where
  "subBytes s = map subByte s"

definition shiftRows :: "bytes \<Rightarrow> bytes" where
  "shiftRows s = map (\<lambda>i. s ! (i mod 4 + 4 * ((i div 4 + i mod 4) mod 4))) [0..<16]"

definition mixColumn :: "bytes \<Rightarrow> bytes" where
  "mixColumn a =
     [xtime (a ! 0) XOR (xtime (a ! 1) XOR a ! 1) XOR a ! 2 XOR a ! 3,
      a ! 0 XOR xtime (a ! 1) XOR (xtime (a ! 2) XOR a ! 2) XOR a ! 3,
      a ! 0 XOR a ! 1 XOR xtime (a ! 2) XOR (xtime (a ! 3) XOR a ! 3),
      (xtime (a ! 0) XOR a ! 0) XOR a ! 1 XOR a ! 2 XOR xtime (a ! 3)]"

definition mixColumns :: "bytes \<Rightarrow> bytes" where
  "mixColumns s = concat (map (\<lambda>c. mixColumn (take 4 (drop (4 * c) s))) [0..<4])"

definition addRoundKey :: "bytes \<Rightarrow> bytes \<Rightarrow> bytes" where
  "addRoundKey s rk = map (\<lambda>i. s ! i XOR rk ! i) [0..<16]"

text \<open>
  The key schedule: \<open>nk\<close> words of key (4, 6 or 8) are expanded to \<open>4 * (nk + 7)\<close> words;
  \<open>rcon\<close> is the round constant of the next word that takes one.
\<close>

fun expandKeyLoop :: "nat \<Rightarrow> nat \<Rightarrow> byte \<Rightarrow> bytes list \<Rightarrow> bytes list" where
  "expandKeyLoop nk 0 rcon w = w"
| "expandKeyLoop nk (Suc n) rcon w =
     (let i = length w;
          t = w ! (i - 1);
          t' = (if i mod nk = 0 then xorBytes (subBytes (rotate1 t)) [rcon, 0, 0, 0]
                else if 6 < nk \<and> i mod nk = 4 then subBytes t
                else t)
      in expandKeyLoop nk n (if i mod nk = 0 then xtime rcon else rcon)
           (w @ [xorBytes (w ! (i - nk)) t']))"

definition expandKey :: "bytes \<Rightarrow> bytes list" where
  "expandKey key =
     (let nk = length key div 4
      in expandKeyLoop nk (4 * (nk + 7) - nk) 1
           (map (\<lambda>i. take 4 (drop (4 * i) key)) [0..<nk]))"

definition roundKey :: "bytes list \<Rightarrow> nat \<Rightarrow> bytes" where
  "roundKey w r = concat (take 4 (drop (4 * r) w))"

fun rounds :: "bytes list \<Rightarrow> nat \<Rightarrow> nat \<Rightarrow> bytes \<Rightarrow> bytes" where
  "rounds w r 0 s = s"
| "rounds w r (Suc n) s =
     rounds w (Suc r) n (addRoundKey (mixColumns (shiftRows (subBytes s))) (roundKey w r))"

definition encryptBlock :: "bytes list \<Rightarrow> bytes \<Rightarrow> bytes" where
  "encryptBlock w src =
     (let nr = length w div 4 - 1;
          s = rounds w 1 (nr - 1) (addRoundKey src (roundKey w 0))
      in addRoundKey (shiftRows (subBytes s)) (roundKey w nr))"

text \<open>
  \<^verbatim>\<open>cipher.Block\<close> is an interface; of its methods the package's calls reach
  \<^verbatim>\<open>BlockSize\<close> and \<^verbatim>\<open>Encrypt\<close> (GCM never decrypts a block).  \<^verbatim>\<open>aes.NewCipher\<close>
  accepts keys of 16, 24 and 32 bytes and fails with \<^verbatim>\<open>KeySizeError\<close> on any other.
\<close>

record Block =
  BlockSize :: nat
  blockEncrypt :: "bytes \<Rightarrow> bytes"

definition NewCipher :: "bytes \<Rightarrow> lib_error + Block" where
  "NewCipher key =
     (let k = length key
      in if k = 16 \<or> k = 24 \<or> k = 32
         then Inr \<lparr>BlockSize = 16, blockEncrypt = encryptBlock (expandKey key)\<rparr>
         else Inl (KeySizeError k))"

subsection \<open>crypto/cipher: GCM\<close>

text \<open>
  \<^verbatim>\<open>cipher.NewGCM\<close> wraps a block cipher of block size 16 in Galois counter mode with
  the standard nonce size 12 and tag size 16, and fails on any other block size.
\<close>

record gcm =
  cipher :: Block
  nonceSize :: nat
  tagSize :: nat

definition gcmBlockSize :: nat where "gcmBlockSize = 16"
definition gcmTagSize :: nat where "gcmTagSize = 16"
definition gcmMinimumTagSize :: nat where "gcmMinimumTagSize = 12"
definition gcmStandardNonceSize :: nat where "gcmStandardNonceSize = 12"

definition NewGCM :: "Block \<Rightarrow> lib_error + gcm" where
  "NewGCM c =
     (if BlockSize c \<noteq> gcmBlockSize then Inl ErrGCMBlockSize
      else Inr \<lparr>cipher = c, nonceSize = gcmStandardNonceSize, tagSize = gcmTagSize\<rparr>)"

definition NonceSize :: "gcm \<Rightarrow> nat" where
  "NonceSize g = nonceSize g"

definition Overhead :: "gcm \<Rightarrow> nat" where
  "Overhead g = tagSize g"

text \<open>Big-endian integers: \<^verbatim>\<open>binary.BigEndian.Uint32\<close>, \<^verbatim>\<open>PutUint32\<close>, \<^verbatim>\<open>PutUint64\<close>.\<close>

definition beUint :: "bytes \<Rightarrow> 'a::len word" where
  "beUint bs = foldl (\<lambda>acc b. push_bit 8 acc OR ucast b) 0 bs"

definition bePut :: "nat \<Rightarrow> 'a::len word \<Rightarrow> bytes" where
  "bePut n w = map (\<lambda>i. ucast (drop_bit (8 * (n - 1 - i)) w)) [0..<n]"

text \<open>
  \<^verbatim>\<open>gcmInc32\<close> adds one to the last four bytes of the counter block, modulo \<open>2^32\<close>.
  \<^verbatim>\<open>deriveCounter\<close>, for a nonce of the standard size: the nonce, then the counter 1.
\<close>

definition gcmInc32 :: "bytes \<Rightarrow> bytes" where
  "gcmInc32 counterBlock =
     take 12 counterBlock @ bePut 4 ((beUint (drop 12 counterBlock) :: 32 word) + 1)"

definition deriveCounter :: "bytes \<Rightarrow> bytes" where
  "deriveCounter nonce = nonce @ [0, 0, 0, 1]"

text \<open>\<^verbatim>\<open>counterCrypt\<close>: counter mode, one block of key stream for every 16 bytes of input.\<close>

function counterCrypt :: "gcm \<Rightarrow> bytes \<Rightarrow> bytes \<Rightarrow> bytes" where
  "counterCrypt g inp counter =
     (if inp = [] then []
      else xorBytes (take 16 inp) (blockEncrypt (cipher g) counter)
           @ counterCrypt g (drop 16 inp) (gcmInc32 counter))"
  by pat_completeness auto
termination
  by (relation "measure (\<lambda>(g, inp, counter). length inp)") auto

declare counterCrypt.simps [simp del]

text \<open>
  GHASH.  \<open>gcmMul x y\<close> is the product in GF(2^128) as GCM defines it: the first bit of a
  block (the top bit of the 128-bit word) is the coefficient of \<open>x^0\<close>, and the reduction
  polynomial is \<open>x^128 + x^7 + x^2 + x + 1\<close>.  The loop runs over the bits of \<open>x\<close>, first
  bit first (\<open>gcmMulLoop n\<close> has \<open>n\<close> bits to go).
\<close>

fun gcmMulLoop :: "nat \<Rightarrow> 128 word \<Rightarrow> 128 word \<Rightarrow> 128 word \<Rightarrow> 128 word" where
  "gcmMulLoop 0 x z v = z"
| "gcmMulLoop (Suc n) x z v =
     gcmMulLoop n x (if bit x n then z XOR v else z)
       (if bit v 0 then drop_bit 1 v XOR push_bit 120 0xE1 else drop_bit 1 v)"

definition gcmMul :: "128 word \<Rightarrow> 128 word \<Rightarrow> 128 word" where
  "gcmMul x y = gcmMulLoop 128 x 0 y"

text \<open>\<^verbatim>\<open>update\<close> folds \<open>data\<close> into \<open>y\<close> block by block, the last block padded with zeros.\<close>

function gcmUpdate :: "128 word \<Rightarrow> 128 word \<Rightarrow> bytes \<Rightarrow> 128 word" where
  "gcmUpdate h y data =
     (if data = [] then y
      else let blk = take 16 data;
               padded = blk @ replicate (16 - length blk) 0
           in gcmUpdate h (gcmMul (y XOR beUint padded) h) (drop 16 data))"
  by pat_completeness auto
termination
  by (relation "measure (\<lambda>(h, y, data). length data)") auto

declare gcmUpdate.simps [simp del]

text \<open>
  \<^verbatim>\<open>auth\<close>: the tag of \<open>ciphertext\<close> and \<open>additionalData\<close> under the hash key
  \<open>h\<close>, the encryption of the zero block, masked with \<open>tagMask\<close>.
\<close>

definition auth :: "gcm \<Rightarrow> bytes \<Rightarrow> bytes \<Rightarrow> bytes \<Rightarrow> bytes" where
  "auth g ciphertext additionalData tagMask =
     (let h = beUint (blockEncrypt (cipher g) (replicate 16 0));
          y = gcmUpdate h (gcmUpdate h 0 additionalData) ciphertext;
          lens = push_bit 64 (of_nat (length additionalData * 8))
                 OR of_nat (length ciphertext * 8);
          y' = gcmMul (y XOR lens) h
      in xorBytes (bePut 16 y') tagMask)"

text \<open>
  \<^verbatim>\<open>Seal\<close> panics on a nonce of the wrong length (``crypto/cipher: incorrect nonce length
  given to GCM'') and on a plaintext of more than \<^verbatim>\<open>((1<<32)-2)*BlockSize\<close> bytes
  (``crypto/cipher: message too large for GCM''): the block counter of GCM has 32 bits.
  \<^verbatim>\<open>Open\<close> panics on the first, and returns its error on a ciphertext shorter than the
  tag, on one longer than the longest sealed message, and on a tag other than the one it
  computes.
\<close>

definition maxPlaintext :: nat where
  "maxPlaintext = (2 ^ 32 - 2) * 16"

definition Seal :: "gcm \<Rightarrow> bytes \<Rightarrow> bytes \<Rightarrow> bytes \<Rightarrow> panic + bytes" where
  "Seal g nonce plaintext data =
     (if length nonce \<noteq> nonceSize g then Inl IncorrectNonceLength
      else if maxPlaintext < length plaintext then Inl MessageTooLarge
      else let counter = deriveCounter nonce;
               tagMask = blockEncrypt (cipher g) counter;
               out = counterCrypt g plaintext (gcmInc32 counter);
               tag = auth g out data tagMask
           in Inr (out @ tag))"

definition Open :: "gcm \<Rightarrow> bytes \<Rightarrow> bytes \<Rightarrow> bytes \<Rightarrow> bytes outcome" where
  "Open g nonce ciphertext data =
     (if length nonce \<noteq> nonceSize g then Panics IncorrectNonceLength
      else if tagSize g < gcmMinimumTagSize then Panics IncorrectTagSize
      else if length ciphertext < tagSize g then Err ErrOpen
      else if maxPlaintext + tagSize g < length ciphertext then Err ErrOpen
      else let tag = drop (length ciphertext - tagSize g) ciphertext;
               ciphertext' = take (length ciphertext - tagSize g) ciphertext;
               counter = deriveCounter nonce;
               tagMask = blockEncrypt (cipher g) counter;
               expectedTag = auth g ciphertext' data tagMask
           in if take (tagSize g) expectedTag \<noteq> tag then Err ErrOpen
              else Ok (counterCrypt g ciphertext' (gcmInc32 counter)))"

subsection \<open>crypto/rand and io.ReadFull\<close>

text \<open>
  \<^verbatim>\<open>rand.Reader\<close> is the system's secure random source, the only source of randomness
  the package reads.  It is state: \<open>avail\<close> holds the bytes it delivers before it fails, and
  \<open>failure\<close> the error it fails with.  \<^verbatim>\<open>io.ReadFull\<close> fills the whole buffer or returns
  an error: the reader's own, or \<^verbatim>\<open>ErrUnexpectedEOF\<close> when the reader ended after some
  bytes but not all.
\<close>

record reader =
  avail :: bytes
  failure :: lib_error

definition ReadFull :: "reader \<Rightarrow> nat \<Rightarrow> (lib_error + bytes) \<times> reader" where
  "ReadFull r n =
     (if n \<le> length (avail r)
      then (Inr (take n (avail r)), r\<lparr>avail := drop n (avail r)\<rparr>)
      else (Inl (if failure r = EOF \<and> avail r \<noteq> [] then ErrUnexpectedEOF else failure r),
            r\<lparr>avail := []\<rparr>))"

subsection \<open>The package: Encrypt, Decrypt, GenerateKey\<close>

text \<open>
  \<^verbatim>\<open>Encrypt(plaintext, key)\<close>, with the random source as state.  \<^verbatim>\<open>append(nonce,
  ciphertext...)\<close> is the concatenation.
\<close>

definition Encrypt :: "reader \<Rightarrow> bytes \<Rightarrow> bytes \<Rightarrow> (error + string) \<times> reader" where
  "Encrypt rnd plaintext key =
     (if length key \<noteq> 32 then (Inl KeyLength, rnd)
      else case NewCipher key of
        Inl err \<Rightarrow> (Inl (AESCipherCreationFailed err), rnd)
      | Inr block \<Rightarrow>
      (case NewGCM block of
        Inl err \<Rightarrow> (Inl (GCMModeCreationFailed err), rnd)
      | Inr gcm \<Rightarrow>
      (case ReadFull rnd (NonceSize gcm) of
        (Inl err, rnd') \<Rightarrow> (Inl (NonceGenerationFailed err), rnd')
      | (Inr nonce, rnd') \<Rightarrow>
      (case Seal gcm nonce plaintext [] of
        Inl p \<Rightarrow> (Inl (Panic p), rnd')
      | Inr ciphertext \<Rightarrow>
          (Inr (EncodeToString (nonce @ ciphertext)), rnd')))))"

text \<open>\<^verbatim>\<open>Decrypt(ciphertextB64, key)\<close>.\<close>

definition Decrypt :: "string \<Rightarrow> bytes \<Rightarrow> error + bytes" where
  "Decrypt ciphertextB64 key =
     (if length key \<noteq> 32 then Inl KeyLength
      else case DecodeString ciphertextB64 of
        Inl err \<Rightarrow> Inl (Base64DecodeFailed err)
      | Inr data \<Rightarrow>
      (case NewCipher key of
        Inl err \<Rightarrow> Inl (AESCipherCreationFailed err)
      | Inr block \<Rightarrow>
      (case NewGCM block of
        Inl err \<Rightarrow> Inl (GCMModeCreationFailed err)
      | Inr gcm \<Rightarrow>
      (let n = NonceSize gcm
       in if length data < n then Inl CiphertextTooShort
          else let nonce = take n data; ciphertext = drop n data
               in case Open gcm nonce ciphertext [] of
                    Panics p \<Rightarrow> Inl (Panic p)
                  | Err err \<Rightarrow> Inl (DecryptionFailed err)
                  | Ok plaintext \<Rightarrow> Inr plaintext))))"

text \<open>\<^verbatim>\<open>GenerateKey()\<close>: 32 bytes of the random source.\<close>

definition GenerateKey :: "reader \<Rightarrow> (error + bytes) \<times> reader" where
  "GenerateKey rnd =
     (case ReadFull rnd 32 of
        (Inl err, rnd') \<Rightarrow> (Inl (KeyGenerationFailed err), rnd')
      | (Inr key, rnd') \<Rightarrow> (Inr key, rnd'))"

subsection \<open>Notions used in the statements\<close>

text \<open>
  The AEADs that \<open>NewGCM\<close> builds on an AES block cipher, and the one that
  \<open>NewCipher\<close> and \<open>NewGCM\<close> return for a key of 32 bytes.
\<close>

definition standard :: "gcm \<Rightarrow> bool" where
  "standard g =
     (nonceSize g = 12 \<and> tagSize g = 16 \<and> (\<exists>w. blockEncrypt (cipher g) = encryptBlock w))"

definition aead :: "bytes \<Rightarrow> gcm" where
  "aead key =
     \<lparr>cipher = \<lparr>BlockSize = 16, blockEncrypt = encryptBlock (expandKey key)\<rparr>,
      nonceSize = 12, tagSize = 16\<rparr>"



text \<open>Flipping bit \<open>i\<close> of a byte sequence (bit \<open>i mod 8\<close> of byte \<open>i div 8\<close>).\<close>

definition flipBit :: "nat \<Rightarrow> bytes \<Rightarrow> bytes" where
  "flipBit i bs = bs[i div 8 := bs ! (i div 8) XOR push_bit (i mod 8) 1]"

section \<open>Properties of the library functions\<close>

subsection \<open>Base64: decoding inverts encoding\<close>

lemma distinct_encodeStd: "distinct encodeStd"
  by (simp add: encodeStd_def)

lemma length_encodeStd: "length encodeStd = 64"
  by (simp add: encodeStd_def)

lemma index_nth_distinct:
  assumes "distinct xs" and "n < length xs"
  shows "length (takeWhile (\<lambda>x. x \<noteq> xs ! n) xs) = n"
proof -
  have "takeWhile (\<lambda>x. x \<noteq> xs ! n) xs = take n xs"
    using assms by (intro takeWhile_eq_take_P_nth) (auto simp: nth_eq_iff_index_eq)
  then show ?thesis using assms by simp
qed

lemma decodeMap_encode:
  assumes "i < 64"
  shows "decodeMap (encode i) = ucast i"
proof -
  have n: "unat i < 64" using assms by (simp add: word_less_nat_alt)
  then have "encodeStd ! unat i \<in> set encodeStd"
    by (simp add: length_encodeStd)
  moreover have "length (takeWhile (\<lambda>x. x \<noteq> encodeStd ! unat i) encodeStd) = unat i"
    using n by (simp add: index_nth_distinct distinct_encodeStd length_encodeStd)
  ultimately show ?thesis
    by (simp add: decodeMap_def encode_def)
qed

lemma sextet_less: "(w :: 64 word) AND 0x3F < 64"
  by (rule le_less_trans [OF word_and_le1]) simp

lemma ucast_sextet_neq: "(ucast ((w :: 64 word) AND 0x3F) :: byte) \<noteq> 0xFF"
proof
  assume "(ucast (w AND 0x3F) :: byte) = 0xFF"
  then have "bit (ucast (w AND 0x3F) :: byte) 6 = bit (0xFF :: byte) 6" by simp
  then show False by (simp add: bit_simps)
qed

lemma x3F_mask: "(0x3F :: 64 word) = mask 6"
  by (simp add: mask_eq_exp_minus_1)

lemma byte_high_bit: "8 \<le> n \<Longrightarrow> \<not> bit (a :: byte) n"
  by (auto dest: bit_imp_le_length)

lemma Suc_Suc_diff2: "2 \<le> n \<Longrightarrow> Suc (Suc (n - 2)) = n"
  by simp

lemma quantum3:
  fixes a b c :: byte
  defines "val \<equiv> push_bit 16 (ucast a) OR push_bit 8 (ucast b) OR ucast c :: 64 word"
  shows "convertQuantum [ucast (drop_bit 18 val AND 0x3F), ucast (drop_bit 12 val AND 0x3F),
          ucast (drop_bit 6 val AND 0x3F), ucast (val AND 0x3F)] = [a, b, c]"
  unfolding convertQuantum_def val_def x3F_mask
  apply (simp add: Let_def)
  apply (intro conjI bit_word_eqI)
  apply (auto simp add: bit_simps Suc_Suc_diff2 byte_high_bit)
  done

lemma quantum2:
  fixes a b :: byte
  defines "val \<equiv> push_bit 16 (ucast a) OR push_bit 8 (ucast b) :: 64 word"
  shows "convertQuantum [ucast (drop_bit 18 val AND 0x3F), ucast (drop_bit 12 val AND 0x3F),
          ucast (drop_bit 6 val AND 0x3F)] = [a, b]"
  unfolding convertQuantum_def val_def x3F_mask
  apply (simp add: Let_def)
  apply (intro conjI bit_word_eqI)
  apply (auto simp add: bit_simps Suc_Suc_diff2 byte_high_bit)
  done

lemma quantum1:
  fixes a :: byte
  defines "val \<equiv> push_bit 16 (ucast a) :: 64 word"
  shows "convertQuantum [ucast (drop_bit 18 val AND 0x3F), ucast (drop_bit 12 val AND 0x3F)] = [a]"
  unfolding convertQuantum_def val_def x3F_mask
  apply (simp add: Let_def)
  apply (intro conjI bit_word_eqI)
  apply (auto simp add: bit_simps Suc_Suc_diff2 byte_high_bit)
  done

lemma decodeMap_pad: "decodeMap CHR ''='' = 0xFF"
  by (simp add: decodeMap_def encodeStd_def)

lemma decodeMap_sextet: "decodeMap (encode (w AND 0x3F)) = ucast (w AND 0x3F)"
  by (rule decodeMap_encode) (rule sextet_less)

lemma decodeQuantum_full:
  "decodeQuantum [] (encode (w1 AND 0x3F) # encode (w2 AND 0x3F) # encode (w3 AND 0x3F)
       # encode (w4 AND 0x3F) # rest) =
   Inr (convertQuantum [ucast (w1 AND 0x3F), ucast (w2 AND 0x3F), ucast (w3 AND 0x3F),
                  ucast (w4 AND 0x3F)], rest)"
  by (simp add: decodeMap_sextet ucast_sextet_neq)

lemma decodeQuantum_pad1:
  "decodeQuantum [] [encode (w1 AND 0x3F), encode (w2 AND 0x3F), encode (w3 AND 0x3F), CHR ''='']
   = Inr (convertQuantum [ucast (w1 AND 0x3F), ucast (w2 AND 0x3F), ucast (w3 AND 0x3F)], [])"
  by (simp add: decodeMap_sextet ucast_sextet_neq decodeMap_pad is_newline_def)

lemma decodeQuantum_pad2:
  "decodeQuantum [] [encode (w1 AND 0x3F), encode (w2 AND 0x3F), CHR ''='', CHR ''='']
   = Inr (convertQuantum [ucast (w1 AND 0x3F), ucast (w2 AND 0x3F)], [])"
  by (simp add: decodeMap_sextet ucast_sextet_neq decodeMap_pad is_newline_def)

lemma Decode_Nil: "Decode [] = Inr []"
  by (simp add: Decode.simps)

lemma Decode_Cons:
  "Decode (c # src) =
     (case decodeQuantum [] (c # src) of
        Inl e \<Rightarrow> Inl e
      | Inr (out, rest) \<Rightarrow>
          (case Decode rest of Inl e \<Rightarrow> Inl e | Inr out' \<Rightarrow> Inr (out @ out')))"
  by (subst Decode.simps) simp

lemma Decode_Encode: "Decode (Encode bs) = Inr bs"
proof (induction bs rule: Encode.induct)
  case (1 a b c rest)
  define val :: "64 word" where "val = push_bit 16 (ucast a) OR push_bit 8 (ucast b) OR ucast c"
  have "Decode (Encode (a # b # c # rest)) =
        Decode (encode (drop_bit 18 val AND 0x3F) # encode (drop_bit 12 val AND 0x3F) #
                encode (drop_bit 6 val AND 0x3F) # encode (val AND 0x3F) # Encode rest)"
    unfolding val_def by (simp only: Encode.simps Let_def append_Cons append_Nil)
  also have "\<dots> = Inr (convertQuantum [ucast (drop_bit 18 val AND 0x3F),
                ucast (drop_bit 12 val AND 0x3F), ucast (drop_bit 6 val AND 0x3F),
                ucast (val AND 0x3F)] @ rest)"
    by (simp only: Decode_Cons decodeQuantum_full "1.IH" sum.case prod.case)
  also have "\<dots> = Inr (a # b # c # rest)"
    unfolding val_def by (simp only: quantum3 append_Cons append_Nil)
  finally show ?case .
next
  case (2 a b)
  define val :: "64 word" where "val = push_bit 16 (ucast a) OR push_bit 8 (ucast b)"
  have "Decode (Encode [a, b]) =
        Decode [encode (drop_bit 18 val AND 0x3F), encode (drop_bit 12 val AND 0x3F),
                encode (drop_bit 6 val AND 0x3F), CHR ''='']"
    unfolding val_def by (simp only: Encode.simps Let_def)
  also have "\<dots> = Inr (convertQuantum [ucast (drop_bit 18 val AND 0x3F),
                ucast (drop_bit 12 val AND 0x3F), ucast (drop_bit 6 val AND 0x3F)] @ [])"
    by (simp only: Decode_Cons decodeQuantum_pad1 Decode_Nil sum.case prod.case)
  also have "\<dots> = Inr [a, b]"
    unfolding val_def by (simp only: quantum2 append_Nil2)
  finally show ?case .
next
  case (3 a)
  define val :: "64 word" where "val = push_bit 16 (ucast a)"
  have "Decode (Encode [a]) =
        Decode [encode (drop_bit 18 val AND 0x3F), encode (drop_bit 12 val AND 0x3F),
                CHR ''='', CHR ''='']"
    unfolding val_def by (simp only: Encode.simps Let_def)
  also have "\<dots> = Inr (convertQuantum [ucast (drop_bit 18 val AND 0x3F),
                ucast (drop_bit 12 val AND 0x3F)] @ [])"
    by (simp only: Decode_Cons decodeQuantum_pad2 Decode_Nil sum.case prod.case)
  also have "\<dots> = Inr [a]"
    unfolding val_def by (simp only: quantum1 append_Nil2)
  finally show ?case .
next
  case 4
  then show ?case by (simp add: Decode_Nil)
qed

lemma DecodeString_EncodeToString: "DecodeString (EncodeToString bs) = Inr bs"
  by (simp add: DecodeString_def EncodeToString_def Decode_Encode)

lemma EncodeToString_inj: "EncodeToString xs = EncodeToString ys \<Longrightarrow> xs = ys"
proof -
  assume "EncodeToString xs = EncodeToString ys"
  then have "DecodeString (EncodeToString xs) = DecodeString (EncodeToString ys)" by simp
  then show "xs = ys" by (simp add: DecodeString_EncodeToString)
qed

lemma len_step: "4 + (n + 2) div 3 * 4 = (Suc (Suc (Suc n)) + 2) div 3 * (4::nat)"
  by presburger

lemma length_Encode: "length (Encode bs) = (length bs + 2) div 3 * 4"
proof (induction bs rule: Encode.induct)
  case (1 a b c rest)
  have "length (Encode (a # b # c # rest)) = 4 + length (Encode rest)"
    by (simp add: Let_def)
  also have "\<dots> = (length (a # b # c # rest) + 2) div 3 * 4"
    by (simp only: "1.IH" length_Cons len_step)
  finally show ?case .
qed (simp_all add: Let_def)

subsection \<open>GCM: opening what was sealed\<close>

lemma length_encryptBlock: "length (encryptBlock w src) = 16"
  by (simp add: encryptBlock_def Let_def addRoundKey_def)

lemma length_xorBytes: "length (xorBytes x y) = min (length x) (length y)"
  by (simp add: xorBytes_def)

lemma xorBytes_twice: "length x \<le> length k \<Longrightarrow> xorBytes (xorBytes x k) k = x"
proof (induction x arbitrary: k)
  case Nil
  then show ?case by (simp add: xorBytes_def)
next
  case (Cons a x)
  then obtain b k' where k: "k = b # k'" by (cases k) auto
  with Cons show ?case by (simp add: xorBytes_def xor.assoc)
qed

lemma standard_block: "standard g \<Longrightarrow> length (blockEncrypt (cipher g) x) = 16"
  by (auto simp: standard_def length_encryptBlock)

lemma NewCipher_32:
  "length key = 32 \<Longrightarrow>
   NewCipher key = Inr \<lparr>BlockSize = 16, blockEncrypt = encryptBlock (expandKey key)\<rparr>"
  by (simp add: NewCipher_def)

lemma NewGCM_16:
  "BlockSize c = 16 \<Longrightarrow> NewGCM c = Inr \<lparr>cipher = c, nonceSize = 12, tagSize = 16\<rparr>"
  by (simp add: NewGCM_def gcmBlockSize_def gcmStandardNonceSize_def gcmTagSize_def)

lemma NewGCM_standard:
  assumes "length key = 32"
  obtains g where "NewCipher key = Inr (cipher g)" and "NewGCM (cipher g) = Inr g"
    and "standard g" and "NonceSize g = 12"
proof -
  let ?c = "\<lparr>BlockSize = 16, blockEncrypt = encryptBlock (expandKey key)\<rparr>"
  let ?g = "\<lparr>cipher = ?c, nonceSize = 12, tagSize = 16\<rparr>"
  have "NewCipher key = Inr (cipher ?g)" using assms by (simp add: NewCipher_32)
  moreover have "NewGCM (cipher ?g) = Inr ?g" by (simp add: NewGCM_16)
  moreover have "standard ?g" by (auto simp: standard_def)
  moreover have "NonceSize ?g = 12" by (simp add: NonceSize_def)
  ultimately show thesis by (rule that)
qed

lemma counterCrypt_Nil: "counterCrypt g [] counter = []"
  by (simp add: counterCrypt.simps)

lemma length_counterCrypt:
  "standard g \<Longrightarrow> length (counterCrypt g inp counter) = length inp"
proof (induction g inp counter rule: counterCrypt.induct)
  case (1 g inp counter)
  show ?case
  proof (cases "inp = []")
    case True
    then show ?thesis by (simp add: counterCrypt_Nil)
  next
    case False
    have "length (counterCrypt g inp counter) =
          min (length inp) 16 + length (counterCrypt g (drop 16 inp) (gcmInc32 counter))"
      using False "1.prems"
      by (subst counterCrypt.simps) (simp add: length_xorBytes standard_block)
    also have "\<dots> = min (length inp) 16 + (length inp - 16)"
      using False "1.prems" by (simp add: "1.IH")
    finally show ?thesis by simp
  qed
qed

lemma counterCrypt_twice:
  "standard g \<Longrightarrow> counterCrypt g (counterCrypt g inp counter) counter = inp"
proof (induction g inp counter rule: counterCrypt.induct)
  case (1 g inp counter)
  show ?case
  proof (cases "inp = []")
    case True
    then show ?thesis by (simp add: counterCrypt_Nil)
  next
    case False
    define k where "k = blockEncrypt (cipher g) counter"
    define x where "x = xorBytes (take 16 inp) k"
    define r where "r = counterCrypt g (drop 16 inp) (gcmInc32 counter)"
    have lk: "length k = 16" using "1.prems" by (simp add: k_def standard_block)
    have lx: "length x = min (length inp) 16" by (simp add: x_def length_xorBytes lk)
    have lr: "length r = length inp - 16"
      using "1.prems" by (simp add: r_def length_counterCrypt)
    have out: "counterCrypt g inp counter = x @ r"
      using False by (subst counterCrypt.simps) (simp add: x_def r_def k_def)
    have "0 < length x" using False lx by (simp add: min_def)
    then have ne: "x @ r \<noteq> []" by auto
    have rn: "length inp < 16 \<Longrightarrow> r = []" using lr by simp
    have tk: "take 16 (x @ r) = x" using lx rn by (cases "length inp < 16") simp_all
    have dr: "drop 16 (x @ r) = r" using lx rn by (cases "length inp < 16") simp_all
    have "counterCrypt g (x @ r) counter =
          xorBytes x k @ counterCrypt g r (gcmInc32 counter)"
      using ne by (subst counterCrypt.simps) (simp only: tk dr k_def if_False)
    also have "xorBytes x k = take 16 inp"
      unfolding x_def by (rule xorBytes_twice) (simp add: lk)
    also have "counterCrypt g r (gcmInc32 counter) = drop 16 inp"
      unfolding r_def using False "1.prems" by (rule "1.IH")
    finally show ?thesis by (simp add: out)
  qed
qed

lemma length_bePut: "length (bePut n w) = n"
  by (simp add: bePut_def)

lemma length_auth:
  "length tagMask = 16 \<Longrightarrow> length (auth g ciphertext additionalData tagMask) = 16"
  by (simp add: auth_def Let_def length_xorBytes length_bePut)

lemma Seal_Open:
  assumes g: "standard g" and n: "length nonce = 12" and p: "length plaintext \<le> maxPlaintext"
  obtains sealed where "Seal g nonce plaintext data = Inr sealed"
    and "length sealed = length plaintext + 16"
    and "Open g nonce sealed data = Ok plaintext"
proof -
  define counter where "counter = deriveCounter nonce"
  define tagMask where "tagMask = blockEncrypt (cipher g) counter"
  define out where "out = counterCrypt g plaintext (gcmInc32 counter)"
  define tag where "tag = auth g out data tagMask"
  have ns: "nonceSize g = 12" and ts: "tagSize g = 16"
    using g by (simp_all add: standard_def)
  have lo: "length out = length plaintext"
    using g by (simp add: out_def length_counterCrypt)
  have lt: "length tag = 16"
    using g by (simp add: tag_def tagMask_def length_auth standard_block)
  have seal: "Seal g nonce plaintext data = Inr (out @ tag)"
    using n p by (simp add: Seal_def ns Let_def counter_def tagMask_def out_def tag_def)
  have len: "length (out @ tag) = length plaintext + 16"
    by (simp add: lo lt)
  have "Open g nonce (out @ tag) data =
          (if take 16 (auth g out data tagMask) \<noteq> tag then Err ErrOpen
           else Ok (counterCrypt g out (gcmInc32 counter)))"
    using n p by (simp add: Open_def ns ts gcmMinimumTagSize_def lo lt Let_def
        counter_def tagMask_def)
  also have "\<dots> = Ok (counterCrypt g out (gcmInc32 counter))"
    using lt by (simp add: tag_def)
  also have "counterCrypt g out (gcmInc32 counter) = plaintext"
    unfolding out_def using g by (rule counterCrypt_twice)
  finally have "Open g nonce (out @ tag) data = Ok plaintext" .
  with seal len show thesis by (rule that)
qed

lemma Open_short:
  "standard g \<Longrightarrow> length nonce = 12 \<Longrightarrow> length ciphertext < 16 \<Longrightarrow>
   Open g nonce ciphertext data = Err ErrOpen"
  by (simp add: Open_def standard_def gcmMinimumTagSize_def)

section \<open>The package under a key of 32 bytes\<close>

text \<open>
  With a key of 32 bytes, \<open>NewCipher\<close> and \<open>NewGCM\<close> return the AEAD \<open>aead key\<close>, and
  what is left of \<open>Encrypt\<close> and \<open>Decrypt\<close> are the calls after them.
\<close>

lemma standard_aead: "standard (aead key)"
  by (auto simp: standard_def aead_def)

lemma Encrypt_32:
  assumes "length key = 32"
  shows "Encrypt rnd plaintext key =
     (case ReadFull rnd 12 of
        (Inl err, rnd') \<Rightarrow> (Inl (NonceGenerationFailed err), rnd')
      | (Inr nonce, rnd') \<Rightarrow>
          (case Seal (aead key) nonce plaintext [] of
             Inl p \<Rightarrow> (Inl (Panic p), rnd')
           | Inr ciphertext \<Rightarrow> (Inr (EncodeToString (nonce @ ciphertext)), rnd')))"
  using assms unfolding aead_def
  by (simp add: Encrypt_def NewCipher_32 NewGCM_16 NonceSize_def)

lemma Decrypt_32:
  assumes "length key = 32"
  shows "Decrypt envelope key =
     (case DecodeString envelope of
        Inl err \<Rightarrow> Inl (Base64DecodeFailed err)
      | Inr data \<Rightarrow>
          if length data < 12 then Inl CiphertextTooShort
          else (case Open (aead key) (take 12 data) (drop 12 data) [] of
                  Panics p \<Rightarrow> Inl (Panic p)
                | Err err \<Rightarrow> Inl (DecryptionFailed err)
                | Ok plaintext \<Rightarrow> Inr plaintext))"
  using assms unfolding aead_def
  by (cases "DecodeString envelope")
     (simp_all add: Decrypt_def NewCipher_32 NewGCM_16 NonceSize_def Let_def)

lemma ReadFull_cases:
  obtains (ok) "n \<le> length (avail rnd)"
      and "ReadFull rnd n = (Inr (take n (avail rnd)), rnd\<lparr>avail := drop n (avail rnd)\<rparr>)"
  | (fail) err where "length (avail rnd) < n"
      and "ReadFull rnd n = (Inl err, rnd\<lparr>avail := []\<rparr>)"
  by (cases "n \<le> length (avail rnd)") (auto simp: ReadFull_def)

text \<open>
  The three ways \<open>Encrypt\<close> ends under a key of 32 bytes: the random source fails, the
  AEAD panics on a plaintext beyond its limit, or the envelope is returned.
\<close>

lemma Encrypt_32_cases:
  assumes "length key = 32"
  obtains (rand) err where "length (avail rnd) < 12"
      and "ReadFull rnd 12 = (Inl err, rnd\<lparr>avail := []\<rparr>)"
      and "Encrypt rnd plaintext key = (Inl (NonceGenerationFailed err), rnd\<lparr>avail := []\<rparr>)"
  | (large) "12 \<le> length (avail rnd)" and "maxPlaintext < length plaintext"
      and "Encrypt rnd plaintext key =
             (Inl (Panic MessageTooLarge), rnd\<lparr>avail := drop 12 (avail rnd)\<rparr>)"
  | (sealed) ciphertext where "12 \<le> length (avail rnd)"
      and "length plaintext \<le> maxPlaintext"
      and "length ciphertext = length plaintext + 16"
      and "Open (aead key) (take 12 (avail rnd)) ciphertext [] = Ok plaintext"
      and "Encrypt rnd plaintext key =
             (Inr (EncodeToString (take 12 (avail rnd) @ ciphertext)),
              rnd\<lparr>avail := drop 12 (avail rnd)\<rparr>)"
proof (cases rule: ReadFull_cases [of 12 rnd])
  case (fail err)
  then show thesis
    using assms by (intro rand [of err]) (simp_all add: Encrypt_32)
next
  case ok
  let ?nonce = "take 12 (avail rnd)"
  have n: "length ?nonce = 12" using ok by simp
  show thesis
  proof (cases "maxPlaintext < length plaintext")
    case True
    then have "Seal (aead key) ?nonce plaintext [] = Inl MessageTooLarge"
      using n by (simp add: Seal_def aead_def)
    with ok True show thesis
      using assms by (intro large) (simp_all add: Encrypt_32)
  next
    case False
    then have p: "length plaintext \<le> maxPlaintext" by simp
    obtain c where "Seal (aead key) ?nonce plaintext [] = Inr c"
      and "length c = length plaintext + 16"
      and "Open (aead key) ?nonce c [] = Ok plaintext"
      using Seal_Open [OF standard_aead n p] by blast
    with ok p show thesis
      using assms by (intro sealed [of c]) (simp_all add: Encrypt_32)
  qed
qed

subsection \<open>Some concrete envelopes\<close>

lemma decodeMap_A: "decodeMap CHR ''A'' = 0"
  by (simp add: decodeMap_def encodeStd_def)

lemma DecodeString_not_base64: "DecodeString ''not base64!'' = Inl CorruptInputError"
  by (simp add: DecodeString_def Decode_Cons decodeMap_def encodeStd_def is_newline_def)

lemma DecodeString_AAAA: "DecodeString ''AAAA'' = Inr [0, 0, 0]"
  by (simp add: DecodeString_def Decode_Cons Decode_Nil decodeMap_A convertQuantum_def)

lemma DecodeString_20A:
  "DecodeString ''AAAAAAAAAAAAAAAAAAAA'' = Inr [0, 0, 0, 0, 0, 0, 0, 0, 0, 0, 0, 0, 0, 0, 0]"
  by (simp add: DecodeString_def Decode_Cons Decode_Nil decodeMap_A convertQuantum_def)

section \<open>The claims\<close>

text \<open>
  C3 (key length enforcement).  With a key whose length is not 32, \<open>Encrypt\<close> and
  \<open>Decrypt\<close> fail with the key-length error (``key must be 32 bytes for AES-256'', the
  specification's InvalidKeyLength), whatever the plaintext, the envelope and the random
  source; \<open>Encrypt\<close> reads nothing from the random source.
\<close>

theorem key_length_enforced:
  "length key \<noteq> 32 \<Longrightarrow>
   Encrypt rnd plaintext key = (Inl KeyLength, rnd) \<and> Decrypt envelope key = Inl KeyLength"
  by (simp add: Encrypt_def Decrypt_def)

theorem key_length_enforced_witness:
  "length (replicate 16 0 :: bytes) \<noteq> 32 \<and>
   Encrypt \<lparr>avail = [1, 2, 3], failure = EOF\<rparr> [0x68, 0x69] (replicate 16 0) =
     (Inl KeyLength, \<lparr>avail = [1, 2, 3], failure = EOF\<rparr>) \<and>
   Decrypt ''AAAAAAAAAAAAAAAA'' (replicate 16 0) = Inl KeyLength \<and>
   length (replicate 31 0 :: bytes) \<noteq> 32 \<and>
   Decrypt ''AAAAAAAAAAAAAAAA'' (replicate 31 0) = Inl KeyLength \<and>
   length (replicate 33 0 :: bytes) \<noteq> 32 \<and>
   Decrypt ''AAAAAAAAAAAAAAAA'' (replicate 33 0) = Inl KeyLength"
  using key_length_enforced [of "replicate 16 0" "\<lparr>avail = [1, 2, 3], failure = EOF\<rparr>"
      "[0x68, 0x69]" "''AAAAAAAAAAAAAAAA''"]
    key_length_enforced [of "replicate 31 0" _ _ "''AAAAAAAAAAAAAAAA''"]
    key_length_enforced [of "replicate 33 0" _ _ "''AAAAAAAAAAAAAAAA''"]
  by simp

text \<open>
  C1 (round trip).  Under a key of 32 bytes, \<open>Decrypt\<close> of an envelope that \<open>Encrypt\<close>
  returned for a plaintext returns that plaintext, for every plaintext, the empty one
  included.  \<open>Encrypt\<close> does return an envelope when the random source delivers the 12
  bytes of the nonce and the plaintext is within the limit of GCM.
\<close>

theorem Decrypt_Encrypt:
  assumes "length key = 32"
  shows "(fst (Encrypt rnd plaintext key) = Inr envelope \<longrightarrow>
            Decrypt envelope key = Inr plaintext) \<and>
         (12 \<le> length (avail rnd) \<and> length plaintext \<le> maxPlaintext \<longrightarrow>
            (\<exists>e. fst (Encrypt rnd plaintext key) = Inr e \<and> Decrypt e key = Inr plaintext))"
  using assms
proof (cases rule: Encrypt_32_cases [where rnd = rnd and plaintext = plaintext])
  case (rand err)
  then show ?thesis by simp
next
  case large
  then show ?thesis by simp
next
  case (sealed c)
  let ?e = "EncodeToString (take 12 (avail rnd) @ c)"
  have "Decrypt ?e key = Inr plaintext"
    using assms sealed(1,3,4) by (simp add: Decrypt_32 DecodeString_EncodeToString)
  with sealed(5) show ?thesis by auto
qed

theorem Decrypt_Encrypt_witness:
  "length (replicate 32 0 :: bytes) = 32 \<and>
   12 \<le> length (avail \<lparr>avail = replicate 12 7, failure = EOF\<rparr>) \<and>
   length ([] :: bytes) \<le> maxPlaintext \<and>
   (\<exists>e. fst (Encrypt \<lparr>avail = replicate 12 7, failure = EOF\<rparr> [] (replicate 32 0)) = Inr e \<and>
        Decrypt e (replicate 32 0) = Inr [])"
  using Decrypt_Encrypt [of "replicate 32 0" "\<lparr>avail = replicate 12 7, failure = EOF\<rparr>" "[]"]
  by simp

text \<open>
  C6 (envelope length).  Under a key of 32 bytes, an envelope that \<open>Encrypt\<close> returned
  for a plaintext of \<open>L\<close> bytes decodes to exactly \<open>12 + L + 16\<close> bytes and is
  \<open>ceil ((12 + L + 16) / 3) * 4\<close> characters long; for the five bytes of ``hello'' that is
  44 characters.
\<close>

theorem envelope_length:
  assumes "length key = 32" and "fst (Encrypt rnd plaintext key) = Inr envelope"
  shows "(\<exists>data. DecodeString envelope = Inr data \<and>
            length data = 12 + length plaintext + 16) \<and>
         length envelope = (12 + length plaintext + 16 + 2) div 3 * 4 \<and>
         (length plaintext = 5 \<longrightarrow> length envelope = 44)"
  using assms(1)
proof (cases rule: Encrypt_32_cases [where rnd = rnd and plaintext = plaintext])
  case (rand err)
  with assms(2) show ?thesis by simp
next
  case large
  with assms(2) show ?thesis by simp
next
  case (sealed c)
  let ?data = "take 12 (avail rnd) @ c"
  have e: "envelope = EncodeToString ?data" using assms(2) sealed(5) by simp
  have l: "length ?data = 12 + length plaintext + 16" using sealed(1,3) by simp
  have "DecodeString envelope = Inr ?data"
    by (simp add: e DecodeString_EncodeToString)
  moreover have "length envelope = (12 + length plaintext + 16 + 2) div 3 * 4"
    unfolding e EncodeToString_def length_Encode l ..
  ultimately show ?thesis using l by auto
qed

theorem envelope_length_witness:
  "length (replicate 32 0 :: bytes) = 32 \<and>
   (\<exists>envelope.
      fst (Encrypt \<lparr>avail = replicate 12 0, failure = EOF\<rparr> [0x68, 0x65, 0x6C, 0x6C, 0x6F]
             (replicate 32 0)) = Inr envelope \<and>
      (\<exists>data. DecodeString envelope = Inr data \<and> length data = 33) \<and>
      length envelope = 44)"
proof -
  let ?k = "replicate 32 0 :: bytes"
  let ?r = "\<lparr>avail = replicate 12 0, failure = EOF\<rparr>"
  let ?p = "[0x68, 0x65, 0x6C, 0x6C, 0x6F] :: bytes"
  have k: "length ?k = 32" by simp
  obtain e where e: "fst (Encrypt ?r ?p ?k) = Inr e"
    by (cases rule: Encrypt_32_cases [OF k, of ?r ?p]) (simp_all add: maxPlaintext_def)
  from envelope_length [OF k e] k e show ?thesis by auto
qed

text \<open>
  C4 (malformed input).  Under a key of 32 bytes, \<open>Decrypt\<close> fails with the base64 decode
  error when the envelope is not valid base64, and with ``ciphertext too short'' when it
  decodes to fewer than 12 bytes (both are the specification's MalformedEnvelope).  Each is
  the error of a return statement that stands before the call of \<open>Open\<close>: the AEAD is
  not asked to decrypt.
\<close>

theorem malformed_envelope:
  assumes "length key = 32"
  shows "(DecodeString envelope = Inl err \<longrightarrow>
            Decrypt envelope key = Inl (Base64DecodeFailed err)) \<and>
         (DecodeString envelope = Inr data \<and> length data < 12 \<longrightarrow>
            Decrypt envelope key = Inl CiphertextTooShort)"
  using assms by (simp add: Decrypt_32)

theorem malformed_envelope_witness:
  "length (replicate 32 0 :: bytes) = 32 \<and>
   DecodeString ''not base64!'' = Inl CorruptInputError \<and>
   Decrypt ''not base64!'' (replicate 32 0) = Inl (Base64DecodeFailed CorruptInputError) \<and>
   DecodeString ''AAAA'' = Inr [0, 0, 0] \<and> length [0, 0, 0 :: byte] < 12 \<and>
   Decrypt ''AAAA'' (replicate 32 0) = Inl CiphertextTooShort"
  using malformed_envelope [of "replicate 32 0" "''not base64!''" CorruptInputError]
    malformed_envelope [of "replicate 32 0" "''AAAA''" _ "[0, 0, 0]"]
    DecodeString_not_base64 DecodeString_AAAA
  by simp

text \<open>
  C10 (nonce but no tag).  Under a key of 32 bytes, an envelope that decodes to at least
  12 but fewer than 28 bytes passes the too-short check and fails in \<open>Open\<close>, with the
  error \<open>DecryptionFailed\<close> around the AEAD's ``message authentication failed''.
\<close>

theorem short_ciphertext_fails_in_Open:
  assumes "length key = 32" and "DecodeString envelope = Inr data"
    and "12 \<le> length data" and "length data < 28"
  shows "Decrypt envelope key = Inl (DecryptionFailed ErrOpen) \<and>
         Decrypt envelope key \<noteq> Inl CiphertextTooShort \<and>
         Open (aead key) (take 12 data) (drop 12 data) [] = Err ErrOpen"
proof -
  have "Open (aead key) (take 12 data) (drop 12 data) [] = Err ErrOpen"
    using assms(3,4) by (intro Open_short standard_aead) simp_all
  then show ?thesis using assms by (simp add: Decrypt_32)
qed

theorem short_ciphertext_fails_in_Open_witness:
  "length (replicate 32 0 :: bytes) = 32 \<and>
   DecodeString ''AAAAAAAAAAAAAAAAAAAA'' = Inr [0, 0, 0, 0, 0, 0, 0, 0, 0, 0, 0, 0, 0, 0, 0] \<and>
   12 \<le> length [0, 0, 0, 0, 0, 0, 0, 0, 0, 0, 0, 0, 0, 0, 0 :: byte] \<and>
   length [0, 0, 0, 0, 0, 0, 0, 0, 0, 0, 0, 0, 0, 0, 0 :: byte] < 28 \<and>
   Decrypt ''AAAAAAAAAAAAAAAAAAAA'' (replicate 32 0) = Inl (DecryptionFailed ErrOpen)"
  using short_ciphertext_fails_in_Open [of "replicate 32 0" "''AAAAAAAAAAAAAAAAAAAA''"
      "[0, 0, 0, 0, 0, 0, 0, 0, 0, 0, 0, 0, 0, 0, 0]"]
    DecodeString_20A
  by simp

text \<open>
  C8 (key generation).  \<open>GenerateKey\<close> returns the next 32 bytes of the secure random
  source, or fails with \<open>KeyGenerationFailed\<close> (RandomnessUnavailable) when the source
  delivers fewer; a key it returns has 32 bytes, and they are the source's.
\<close>

theorem GenerateKey_32_or_error:
  "(32 \<le> length (avail rnd) \<longrightarrow>
      fst (GenerateKey rnd) = Inr (take 32 (avail rnd))) \<and>
   (length (avail rnd) < 32 \<longrightarrow>
      (\<exists>err. fst (GenerateKey rnd) = Inl (KeyGenerationFailed err))) \<and>
   (fst (GenerateKey rnd) = Inr key \<longrightarrow>
      length key = 32 \<and> key = take 32 (avail rnd))"
  by (cases rule: ReadFull_cases [of 32 rnd]) (auto simp: GenerateKey_def)


theorem GenerateKey_32_or_error_witness:
  "32 \<le> length (avail \<lparr>avail = replicate 40 9, failure = EOF\<rparr>) \<and>
   fst (GenerateKey \<lparr>avail = replicate 40 9, failure = EOF\<rparr>) = Inr (replicate 32 9) \<and>
   length (replicate 32 9 :: bytes) = 32 \<and>
   length (avail \<lparr>avail = [1, 2, 3], failure = EOF\<rparr>) < 32 \<and>
   (\<exists>err. fst (GenerateKey \<lparr>avail = [1, 2, 3], failure = EOF\<rparr>) =
      Inl (KeyGenerationFailed err))"
  using GenerateKey_32_or_error [of "\<lparr>avail = replicate 40 9, failure = EOF\<rparr>"
      "replicate 32 9"]
    GenerateKey_32_or_error [of "\<lparr>avail = [1, 2, 3], failure = EOF\<rparr>" "[]"]
  by simp

text \<open>
  C7 (fresh nonces).  Under a key of 32 bytes, every call of \<open>Encrypt\<close> that returns
  an envelope has drawn its nonce, the first 12 bytes of the envelope, from the random
  source and has used those bytes up; two envelopes for the same plaintext differ whenever the
  two nonces drawn differ.  (How likely two draws are to differ is a property of the random
  source, not of the package.)
\<close>

theorem fresh_nonce_fresh_envelope:
  assumes "length key = 32"
    and "fst (Encrypt rnd1 plaintext key) = Inr e1"
    and "fst (Encrypt rnd2 plaintext key) = Inr e2"
    and "take 12 (avail rnd1) \<noteq> take 12 (avail rnd2)"
  shows "e1 \<noteq> e2 \<and>
         (\<exists>data. DecodeString e1 = Inr data \<and> take 12 data = take 12 (avail rnd1)) \<and>
         avail (snd (Encrypt rnd1 plaintext key)) = drop 12 (avail rnd1)"
  using assms(1)
proof (cases rule: Encrypt_32_cases [where rnd = rnd1 and plaintext = plaintext])
  case (rand err)
  with assms(2) show ?thesis by simp
next
  case large
  with assms(2) show ?thesis by simp
next
  case s1: (sealed c1)
  from assms(1) show ?thesis
  proof (cases rule: Encrypt_32_cases [where rnd = rnd2 and plaintext = plaintext])
    case (rand err)
    with assms(3) show ?thesis by simp
  next
    case large
    with assms(3) show ?thesis by simp
  next
    case s2: (sealed c2)
    have e1: "e1 = EncodeToString (take 12 (avail rnd1) @ c1)"
      using assms(2) s1(5) by simp
    have e2: "e2 = EncodeToString (take 12 (avail rnd2) @ c2)"
      using assms(3) s2(5) by simp
    have "e1 \<noteq> e2"
    proof
      assume "e1 = e2"
      then have "take 12 (avail rnd1) @ c1 = take 12 (avail rnd2) @ c2"
        unfolding e1 e2 by (rule EncodeToString_inj)
      moreover have "length (take 12 (avail rnd1)) = length (take 12 (avail rnd2))"
        using s1(1) s2(1) by simp
      ultimately have "take 12 (avail rnd1) = take 12 (avail rnd2)" by simp
      with assms(4) show False by contradiction
    qed
    moreover have "DecodeString e1 = Inr (take 12 (avail rnd1) @ c1)"
      by (simp add: e1 DecodeString_EncodeToString)
    moreover have "take 12 (take 12 (avail rnd1) @ c1) = take 12 (avail rnd1)"
      using s1(1) by simp
    moreover have "avail (snd (Encrypt rnd1 plaintext key)) = drop 12 (avail rnd1)"
      using s1(5) by simp
    ultimately show ?thesis by auto
  qed
qed

theorem fresh_nonce_fresh_envelope_witness:
  "length (replicate 32 0 :: bytes) = 32 \<and>
   (\<exists>e1 e2 rnd'.
      Encrypt \<lparr>avail = replicate 12 1 @ replicate 12 2, failure = EOF\<rparr> [0x68, 0x69]
        (replicate 32 0) = (Inr e1, rnd') \<and>
      avail rnd' = replicate 12 2 \<and>
      fst (Encrypt rnd' [0x68, 0x69] (replicate 32 0)) = Inr e2 \<and>
      e1 \<noteq> e2)"
proof -
  let ?k = "replicate 32 0 :: bytes"
  let ?r = "\<lparr>avail = replicate 12 1 @ replicate 12 2, failure = EOF\<rparr>"
  let ?p = "[0x68, 0x69] :: bytes"
  have k: "length ?k = 32" by simp
  obtain e1 r' where 1: "Encrypt ?r ?p ?k = (Inr e1, r')" and r': "avail r' = replicate 12 2"
    by (cases rule: Encrypt_32_cases [OF k, of ?r ?p]) (simp_all add: maxPlaintext_def)
  obtain e2 where 2: "fst (Encrypt r' ?p ?k) = Inr e2"
    by (cases rule: Encrypt_32_cases [OF k, of r' ?p]) (simp_all add: maxPlaintext_def r')
  have d: "take 12 (avail ?r) \<noteq> take 12 (avail r')" by (simp add: r')
  have "e1 \<noteq> e2"
    using fresh_nonce_fresh_envelope [OF k _ 2 d, of e1] 1 by simp
  with k 1 2 r' show ?thesis by blast
qed

subsection \<open>What the decoder rejects\<close>

























section \<open>Tampering with the tag\<close>

text \<open>
  Every envelope that \<open>Encrypt\<close> returns ends in the 16 bytes of the tag.  An envelope that
  differs from it in those bytes only, by one bit or by more, is rejected by \<open>Decrypt\<close> under
  the same key with \<open>DecryptionFailed\<close>: \<open>Open\<close> computes the tag of the unchanged nonce and
  ciphertext and compares.  (For a change in the nonce or in the ciphertext, rejection rests
  on the block cipher: on \<open>encryptBlock\<close> being injective, and on the hash key, the
  encryption of the zero block, not being zero.)
\<close>

lemma Seal_parts:
  assumes "standard g" and "length nonce = 12" and "length plaintext \<le> maxPlaintext"
  shows "Seal g nonce plaintext data =
           Inr (counterCrypt g plaintext (gcmInc32 (deriveCounter nonce)) @
                auth g (counterCrypt g plaintext (gcmInc32 (deriveCounter nonce))) data
                  (blockEncrypt (cipher g) (deriveCounter nonce)))"
  using assms by (simp add: Seal_def standard_def Let_def)

lemma Open_wrong_tag:
  assumes g: "standard g" and n: "length nonce = 12" and t: "length tag = 16"
    and ne: "tag \<noteq> auth g ciphertext data (blockEncrypt (cipher g) (deriveCounter nonce))"
  shows "Open g nonce (ciphertext @ tag) data = Err ErrOpen"
proof -
  have "length (auth g ciphertext data (blockEncrypt (cipher g) (deriveCounter nonce))) = 16"
    using g by (simp add: length_auth standard_block)
  then show ?thesis
    using g n t ne by (auto simp: Open_def standard_def gcmMinimumTagSize_def Let_def)
qed

lemma Open_right_tag:
  assumes g: "standard g" and n: "length nonce = 12"
    and l: "length ciphertext \<le> maxPlaintext"
    and t: "tag = auth g ciphertext data (blockEncrypt (cipher g) (deriveCounter nonce))"
  shows "Open g nonce (ciphertext @ tag) data =
           Ok (counterCrypt g ciphertext (gcmInc32 (deriveCounter nonce)))"
proof -
  have "length tag = 16"
    using g by (simp add: t length_auth standard_block)
  then show ?thesis
    using g n l t by (simp add: Open_def standard_def gcmMinimumTagSize_def Let_def)
qed

lemma tampered_tag_rejected:
  assumes key: "length key = 32"
    and env: "fst (Encrypt rnd plaintext key) = Inr envelope"
    and dec: "DecodeString envelope = Inr (body @ tag)" and tag: "length tag = 16"
    and tag': "length tag' = 16" "tag' \<noteq> tag"
  shows "Decrypt (EncodeToString (body @ tag')) key = Inl (DecryptionFailed ErrOpen)"
  using key
proof (cases rule: Encrypt_32_cases [where rnd = rnd and plaintext = plaintext])
  case (rand err)
  with env show ?thesis by simp
next
  case large
  with env show ?thesis by simp
next
  case (sealed c)
  let ?nonce = "take 12 (avail rnd)"
  let ?out = "counterCrypt (aead key) plaintext (gcmInc32 (deriveCounter ?nonce))"
  let ?tag = "auth (aead key) ?out [] (blockEncrypt (cipher (aead key)) (deriveCounter ?nonce))"
  have n: "length ?nonce = 12" using sealed(1) by simp
  have "Seal (aead key) ?nonce plaintext [] = Inr (?out @ ?tag)"
    using standard_aead n sealed(2) by (rule Seal_parts)
  then have "Encrypt rnd plaintext key =
      (Inr (EncodeToString (?nonce @ ?out @ ?tag)), rnd\<lparr>avail := drop 12 (avail rnd)\<rparr>)"
    using key sealed(1) by (simp add: Encrypt_32 ReadFull_def)
  with env have "envelope = EncodeToString (?nonce @ ?out @ ?tag)" by simp
  with dec have eq: "body @ tag = (?nonce @ ?out) @ ?tag"
    by (simp add: DecodeString_EncodeToString)
  have lt: "length ?tag = 16"
    by (simp add: length_auth standard_block [OF standard_aead])
  have "length tag = length ?tag" using tag lt by simp
  with eq have body: "body = ?nonce @ ?out" and t: "tag = ?tag"
    by (metis append_eq_append_conv)+
  have "Open (aead key) ?nonce (?out @ tag') [] = Err ErrOpen"
    using standard_aead n tag'(1) tag'(2) unfolding t by (rule Open_wrong_tag)
  then show ?thesis
    using key n by (simp add: Decrypt_32 DecodeString_EncodeToString body)
qed

lemma flipped_byte: "k < 8 \<Longrightarrow> (b :: byte) XOR push_bit k 1 \<noteq> b"
proof
  assume k: "k < 8" and "b XOR push_bit k 1 = b"
  then have "bit (b XOR push_bit k 1) k = bit b k" by simp
  with k show False by (simp add: bit_simps)
qed

lemma flipBit_tag:
  assumes "8 * length body \<le> i" and "i < 8 * (length body + length tag)"
  obtains tag' where "flipBit i (body @ tag) = body @ tag'"
    and "length tag' = length tag" and "tag' \<noteq> tag"
proof -
  define j where "j = i div 8 - length body"
  define v where "v = tag ! j XOR push_bit (i mod 8) 1"
  have i: "length body \<le> i div 8" and j: "j < length tag"
    using assms by (auto simp: j_def)
  have "flipBit i (body @ tag) = body @ tag[j := v]"
    using i by (simp add: flipBit_def list_update_append nth_append j_def v_def)
  moreover have "length (tag[j := v]) = length tag" by simp
  moreover have "tag[j := v] \<noteq> tag"
  proof
    assume "tag[j := v] = tag"
    then have "tag[j := v] ! j = tag ! j" by simp
    with j have "v = tag ! j" by simp
    then show False using flipped_byte [of "i mod 8" "tag ! j"] by (simp add: v_def)
  qed
  ultimately show thesis by (rule that)
qed

lemma flipped_tag_bit_rejected:
  assumes key: "length key = 32"
    and env: "fst (Encrypt rnd plaintext key) = Inr envelope"
    and dec: "DecodeString envelope = Inr data"
    and i: "8 * (length data - 16) \<le> i" "i < 8 * length data"
  shows "Decrypt (EncodeToString (flipBit i data)) key = Inl (DecryptionFailed ErrOpen)"
proof -
  have "length data = 12 + length plaintext + 16"
    using key env dec
    by (cases rule: Encrypt_32_cases [where rnd = rnd and plaintext = plaintext])
       (auto simp: DecodeString_EncodeToString)
  then have l: "16 \<le> length data" by simp
  define body where "body = take (length data - 16) data"
  define tag where "tag = drop (length data - 16) data"
  have d: "data = body @ tag" and t: "length tag = 16" and b: "length body = length data - 16"
    using l by (simp_all add: body_def tag_def)
  obtain tag' where f: "flipBit i (body @ tag) = body @ tag'"
    and t': "length tag' = length tag" "tag' \<noteq> tag"
    using i l by (auto simp: b t intro: flipBit_tag [of body i tag])
  show ?thesis
    using tampered_tag_rejected [OF key env dec [unfolded d] t _ t'(2), of ] t'(1) t
    by (simp add: d f)
qed

section \<open>Tampering with the ciphertext, and the hash key\<close>

text \<open>
  The tag depends on the ciphertext through GHASH, a polynomial in the hash key, which is the
  encryption of the zero block.  Were the hash key of some key zero, the tag would not depend
  on the ciphertext at all, and under that key \<open>Decrypt\<close> would accept an envelope with a bit
  of the ciphertext flipped and return a plaintext other than the one sealed.  So rejection
  of every such envelope under every key of 32 bytes says that AES-256 maps the zero block
  to the zero block under no key.
\<close>

lemma gcmMulLoop_zero: "gcmMulLoop n x z 0 = z"
  by (induction n arbitrary: z) simp_all

lemma gcmMul_zero: "gcmMul x 0 = 0"
  by (simp add: gcmMul_def gcmMulLoop_zero)

lemma gcmUpdate_zero: "gcmUpdate 0 0 data = 0"
proof (induction "0 :: 128 word" "0 :: 128 word" data rule: gcmUpdate.induct)
  case (1 data)
  show ?case
  proof (cases "data = []")
    case True
    then show ?thesis by (simp add: gcmUpdate.simps)
  next
    case False
    then show ?thesis
      using "1.hyps" [OF False refl refl]
      by (subst gcmUpdate.simps) (simp add: Let_def gcmMul_zero)
  qed
qed

lemma auth_zero_hash_key:
  assumes "beUint (blockEncrypt (cipher g) (replicate 16 0)) = (0 :: 128 word)"
  shows "auth g ciphertext additionalData tagMask = xorBytes (bePut 16 (0 :: 128 word)) tagMask"
  using assms by (simp add: auth_def Let_def gcmMul_zero)

lemma counterCrypt_inj:
  assumes "standard g" and "counterCrypt g x counter = counterCrypt g y counter"
  shows "x = y"
proof -
  have "counterCrypt g (counterCrypt g x counter) counter =
        counterCrypt g (counterCrypt g y counter) counter"
    using assms(2) by simp
  then show ?thesis using assms(1) by (simp add: counterCrypt_twice)
qed

lemma flipBit_middle:
  assumes "8 * length a \<le> i" and "i < 8 * (length a + length b)"
  obtains b' where "flipBit i (a @ b @ c) = a @ b' @ c"
    and "length b' = length b" and "b' \<noteq> b"
proof -
  define j where "j = i div 8 - length a"
  define v where "v = b ! j XOR push_bit (i mod 8) 1"
  have i: "length a \<le> i div 8" and j: "j < length b"
    using assms by (auto simp: j_def)
  have "flipBit i (a @ b @ c) = a @ b[j := v] @ c"
    using i j by (simp add: flipBit_def list_update_append nth_append j_def v_def)
  moreover have "length (b[j := v]) = length b" by simp
  moreover have "b[j := v] \<noteq> b"
  proof
    assume "b[j := v] = b"
    then have "b[j := v] ! j = b ! j" by simp
    with j have "v = b ! j" by simp
    then show False using flipped_byte [of "i mod 8" "b ! j"] by (simp add: v_def)
  qed
  ultimately show thesis by (rule that)
qed

lemma zero_hash_key_accepts_flipped_ciphertext:
  assumes key: "length key = 32"
    and weak: "beUint (encryptBlock (expandKey key) (replicate 16 0)) = (0 :: 128 word)"
    and env: "fst (Encrypt rnd plaintext key) = Inr envelope"
    and dec: "DecodeString envelope = Inr data"
    and i: "8 * 12 \<le> i" "i < 8 * (length data - 16)"
  shows "\<exists>altered. Decrypt (EncodeToString (flipBit i data)) key = Inr altered \<and>
           altered \<noteq> plaintext"
  using key
proof (cases rule: Encrypt_32_cases [where rnd = rnd and plaintext = plaintext])
  case (rand err)
  with env show ?thesis by simp
next
  case large
  with env show ?thesis by simp
next
  case (sealed c)
  let ?g = "aead key"
  let ?nonce = "take 12 (avail rnd)"
  let ?ctr = "gcmInc32 (deriveCounter ?nonce)"
  let ?mask = "blockEncrypt (cipher ?g) (deriveCounter ?nonce)"
  let ?out = "counterCrypt ?g plaintext ?ctr"
  let ?tag = "xorBytes (bePut 16 (0 :: 128 word)) ?mask"
  have g: "standard ?g" by (rule standard_aead)
  have n: "length ?nonce = 12" using sealed(1) by simp
  have w: "beUint (blockEncrypt (cipher ?g) (replicate 16 0)) = (0 :: 128 word)"
    using weak by (simp add: aead_def)
  have tag: "auth ?g ct [] ?mask = ?tag" for ct
    using w by (rule auth_zero_hash_key)
  have lt: "length ?tag = 16"
    by (simp add: length_xorBytes length_bePut standard_block [OF g])
  have lo: "length ?out = length plaintext"
    using g by (rule length_counterCrypt)
  have "Seal ?g ?nonce plaintext [] = Inr (?out @ ?tag)"
    using Seal_parts [OF g n sealed(2), of "[]"] by (simp only: tag)
  then have "Encrypt rnd plaintext key =
      (Inr (EncodeToString (?nonce @ ?out @ ?tag)), rnd\<lparr>avail := drop 12 (avail rnd)\<rparr>)"
    using key sealed(1) by (simp add: Encrypt_32 ReadFull_def)
  with env have "envelope = EncodeToString (?nonce @ ?out @ ?tag)" by simp
  with dec have data: "data = ?nonce @ ?out @ ?tag"
    by (simp add: DecodeString_EncodeToString)
  have "i < 8 * (length ?nonce + length ?out)"
    using i(2) n lt by (simp add: data)
  then obtain out' where f: "flipBit i (?nonce @ ?out @ ?tag) = ?nonce @ out' @ ?tag"
    and lo': "length out' = length ?out" and ne: "out' \<noteq> ?out"
    using i(1) n by (auto intro: flipBit_middle [of ?nonce i ?out ?tag])
  have l': "length out' \<le> maxPlaintext" using sealed(2) lo lo' by simp
  have "Open ?g ?nonce (out' @ ?tag) [] = Ok (counterCrypt ?g out' ?ctr)"
    using g n l' by (rule Open_right_tag) (simp only: tag)
  then have d: "Decrypt (EncodeToString (flipBit i data)) key = Inr (counterCrypt ?g out' ?ctr)"
    using key n by (simp add: data f Decrypt_32 DecodeString_EncodeToString)
  have "counterCrypt ?g out' ?ctr \<noteq> plaintext"
  proof
    assume "counterCrypt ?g out' ?ctr = plaintext"
    then have "counterCrypt ?g (counterCrypt ?g out' ?ctr) ?ctr = ?out" by simp
    then have "out' = ?out" using g by (simp add: counterCrypt_twice)
    with ne show False by contradiction
  qed
  with d show ?thesis by blast
qed


end
